theory Spec2Isabelle
  imports Main "HOL-Library.AList"
begin

section \<open>Values, dictionaries and errors\<close>

text \<open>
  The client of \<^verbatim>\<open>pyams_elastic/client.py\<close> moves JSON-compatible Python values between
  domain objects and the Elasticsearch connection object. A dictionary is an association
  list in insertion order; the operations below are the ones the client uses on them.
  Floating-point scalars are left out: the client never inspects a field value.
\<close>

datatype json =
    JNone
  | JBool bool
  | JInt int
  | JStr string
  | JList "json list"
  | JDict "(string \<times> json) list"

type_synonym dict = "(string \<times> json) list"

datatype error =
    NotFoundError string
  | TransportError string
  | KeyError string
  | TypeError
  | ValueError
  | AttributeError

text \<open>Python truth value of a value, as used by \<^verbatim>\<open>not x\<close> and \<^verbatim>\<open>x or y\<close>.\<close>

fun truthy :: "json \<Rightarrow> bool" where
  "truthy JNone = False"
| "truthy (JBool b) = b"
| "truthy (JInt i) = (i \<noteq> 0)"
| "truthy (JStr s) = (s \<noteq> [])"
| "truthy (JList xs) = (xs \<noteq> [])"
| "truthy (JDict d) = (d \<noteq> [])"

text \<open>\<^verbatim>\<open>x[k]\<close> with a string key: only a dictionary answers, a missing key raises KeyError.\<close>

fun getitem :: "json \<Rightarrow> string \<Rightarrow> error + json" where
  "getitem (JDict d) k = (case map_of d k of None \<Rightarrow> Inl (KeyError k) | Some v \<Rightarrow> Inr v)"
| "getitem _ k = Inl TypeError"

text \<open>\<^verbatim>\<open>k in d\<close>, \<^verbatim>\<open>d.pop(k)\<close> and \<^verbatim>\<open>d.update(e)\<close>.\<close>

definition dict_contains :: "dict \<Rightarrow> string \<Rightarrow> bool" where
  "dict_contains d k = (map_of d k \<noteq> None)"

definition dict_pop :: "dict \<Rightarrow> string \<Rightarrow> error + (json \<times> dict)" where
  "dict_pop d k =
     (case map_of d k of
        None \<Rightarrow> Inl (KeyError k)
      | Some v \<Rightarrow> Inr (v, AList.delete k d))"

definition dict_update :: "dict \<Rightarrow> dict \<Rightarrow> dict" where
  "dict_update d e = fold (\<lambda>(k, v) acc. AList.update k v acc) e d"

section \<open>Module constants\<close>

definition ANALYZER_SETTINGS :: dict where
  "ANALYZER_SETTINGS =
     [(''analysis'', JDict
        [(''filter'', JDict
           [(''snowball'', JDict
              [(''type'', JStr ''snowball''),
               (''language'', JStr ''English'')])]),
         (''analyzer'', JDict
           [(''lowercase'', JDict
              [(''type'', JStr ''custom''),
               (''tokenizer'', JStr ''standard''),
               (''filter'', JList [JStr ''lowercase''])]),
            (''email'', JDict
              [(''type'', JStr ''custom''),
               (''tokenizer'', JStr ''uax_url_email''),
               (''filter'', JList [JStr ''lowercase''])]),
            (''content'', JDict
              [(''type'', JStr ''custom''),
               (''tokenizer'', JStr ''standard''),
               (''char_filter'', JList [JStr ''html_strip'']),
               (''filter'', JList [JStr ''lowercase'', JStr ''stop'', JStr ''snowball''])])])])]"

definition CREATE_INDEX_SETTINGS :: dict where
  "CREATE_INDEX_SETTINGS =
     dict_update ANALYZER_SETTINGS
       [(''index'', JDict
          [(''number_of_shards'', JInt 2),
           (''number_of_replicas'', JInt 0)])]"

section \<open>The connection object and the world around the client\<close>

text \<open>
  Every request the client sends through \<^verbatim>\<open>self.es\<close> is one value of \<open>es_call\<close>, named
  after the method of the Elasticsearch connection object it invokes, with the keyword
  arguments the client passes.
\<close>

datatype es_call =
    Indices_exists string
  | Indices_delete string
  | Indices_create string json
  | Indices_get_mapping string
  | Indices_put_mapping string json
  | Es_index string dict json "json option"
  | Es_delete string json
  | Es_get string json
  | Es_close

text \<open>
  The connection object is not part of the package. It is a parameter: any function that
  answers a request, in a server state of any type \<open>'s\<close>, with a value or an exception
  and a new server state.
\<close>

type_synonym 's connection = "es_call \<Rightarrow> 's \<Rightarrow> (error + json) \<times> 's"

text \<open>
  A call that \<^verbatim>\<open>@transactional\<close> has put aside: the decorated method and its arguments.
\<close>

datatype deferred =
    Index_document json dict
  | Delete_document json bool

text \<open>
  The state outside the client: the server, the exchanges that reached the connection
  (request and answer, oldest first), and the calls waiting in the current transaction.
\<close>

record 's world =
  server :: 's
  calls :: "(es_call \<times> (error + json)) list"
  pending :: "deferred list"

record 's client =
  es :: "'s connection"
  index :: string
  disable_indexing :: bool
  use_transaction :: bool

text \<open>One request through \<^verbatim>\<open>self.es\<close>: the connection answers and the exchange is recorded.\<close>

definition request :: "'s client \<Rightarrow> es_call \<Rightarrow> 's world \<Rightarrow> (error + json) \<times> 's world" where
  "request c call w =
     (case es c call (server w) of
        (r, s') \<Rightarrow> (r, w\<lparr>server := s', calls := calls w @ [(call, r)]\<rparr>))"

text \<open>The exchanges that happened between an earlier world and a later one.\<close>

definition issued :: "'s world \<Rightarrow> 's world \<Rightarrow> (es_call \<times> (error + json)) list" where
  "issued w w' = drop (length (calls w)) (calls w')"

section \<open>ElasticClient\<close>

subsection \<open>Scoped use\<close>

definition close :: "'s client \<Rightarrow> 's world \<Rightarrow> (error + unit) \<times> 's world" where
  "close c w =
     (case request c Es_close w of
        (Inl e, w1) \<Rightarrow> (Inl e, w1)
      | (Inr _, w1) \<Rightarrow> (Inr (), w1))"

definition enter :: "'s client \<Rightarrow> 's connection" where
  "enter c = es c"

definition exit :: "'s client \<Rightarrow> 's world \<Rightarrow> (error + unit) \<times> 's world" where
  "exit c w =
     (case request c Es_close w of
        (Inl e, w1) \<Rightarrow> (Inl e, w1)
      | (Inr _, w1) \<Rightarrow> (Inr (), w1))"

text \<open>
  \<^verbatim>\<open>with client as handle: body\<close>. Python binds the value of \<^verbatim>\<open>__enter__\<close>, runs the
  body, then calls \<^verbatim>\<open>__exit__\<close> whether the body returned or raised. \<^verbatim>\<open>__exit__\<close> here
  returns None, so an exception of the body is raised again after it; an exception of
  \<^verbatim>\<open>__exit__\<close> itself replaces the outcome of the body.
\<close>

definition with_client ::
  "'s client \<Rightarrow> ('s connection \<Rightarrow> 's world \<Rightarrow> (error + 'a) \<times> 's world) \<Rightarrow> 's world
     \<Rightarrow> (error + 'a) \<times> 's world" where
  "with_client c body w =
     (case body (enter c) w of
        (r, w1) \<Rightarrow>
          (case exit c w1 of
             (Inl e, w2) \<Rightarrow> (Inl e, w2)
           | (Inr _, w2) \<Rightarrow> (r, w2)))"

subsection \<open>Index lifecycle\<close>

definition ensure_index :: "'s client \<Rightarrow> bool \<Rightarrow> json \<Rightarrow> 's world \<Rightarrow> (error + unit) \<times> 's world" where
  "ensure_index c recreate settings w =
     (case request c (Indices_exists (index c)) w of
        (Inl e, w1) \<Rightarrow> (Inl e, w1)
      | (Inr exists, w1) \<Rightarrow>
          if recreate \<or> \<not> truthy exists then
            (case (if truthy exists then request c (Indices_delete (index c)) w1
                   else (Inr JNone, w1)) of
               (Inl e, w2) \<Rightarrow> (Inl e, w2)
             | (Inr _, w2) \<Rightarrow>
                 (case request c
                         (Indices_create (index c)
                            (JDict [(''settings'',
                               if truthy settings then settings
                               else JDict CREATE_INDEX_SETTINGS)])) w2 of
                    (Inl e, w3) \<Rightarrow> (Inl e, w3)
                  | (Inr _, w3) \<Rightarrow> (Inr (), w3)))
          else (Inr (), w1))"

definition delete_index :: "'s client \<Rightarrow> 's world \<Rightarrow> (error + unit) \<times> 's world" where
  "delete_index c w =
     (case request c (Indices_delete (index c)) w of
        (Inl e, w1) \<Rightarrow> (Inl e, w1)
      | (Inr _, w1) \<Rightarrow> (Inr (), w1))"

subsection \<open>Mappings\<close>

definition get_mappings :: "'s client \<Rightarrow> 's world \<Rightarrow> (error + json) \<times> 's world" where
  "get_mappings c w =
     (case request c (Indices_get_mapping (index c)) w of
        (Inl e, w1) \<Rightarrow> (Inl e, w1)
      | (Inr raw, w1) \<Rightarrow>
          (case getitem raw (index c) of
             Inl e \<Rightarrow> (Inl e, w1)
           | Inr entry \<Rightarrow>
               (case getitem entry ''mappings'' of
                  Inl e \<Rightarrow> (Inl e, w1)
                | Inr m \<Rightarrow> (Inr m, w1))))"

text \<open>
  A class as the client sees it: whether it provides \<^verbatim>\<open>IElasticMapping\<close>, what its
  \<^verbatim>\<open>elastic_mapping()\<close> returns, and what the \<^verbatim>\<open>elastic_mapping()\<close> of each adapter that
  \<^verbatim>\<open>getAdapters((cls,), IElasticMappingExtension)\<close> yields returns, in the order yielded.
\<close>

record es_class =
  provides_mapping :: bool
  elastic_mapping :: dict
  mapping_extensions :: "dict list"


text \<open>The inner loop of \<^verbatim>\<open>ensure_all_mappings\<close> over the extensions of one class.\<close>

fun extend_mapping :: "dict list \<Rightarrow> dict \<Rightarrow> dict" where
  "extend_mapping [] cls_mapping = cls_mapping"
| "extend_mapping (extension # rest) cls_mapping =
     extend_mapping rest (dict_update cls_mapping extension)"

text \<open>The outer loop over the values of the class registry, in their order.\<close>

fun collect_mappings :: "es_class list \<Rightarrow> dict \<Rightarrow> dict" where
  "collect_mappings [] doc_mapping = doc_mapping"
| "collect_mappings (cls # rest) doc_mapping =
     (if \<not> provides_mapping cls then collect_mappings rest doc_mapping
      else
        (let cls_mapping = elastic_mapping cls in
         if cls_mapping \<noteq> [] then
           collect_mappings rest
             (dict_update doc_mapping (extend_mapping (mapping_extensions cls) cls_mapping))
         else collect_mappings rest doc_mapping))"

definition ensure_all_mappings ::
  "'s client \<Rightarrow> es_class list \<Rightarrow> bool \<Rightarrow> 's world \<Rightarrow> (error + unit) \<times> 's world" where
  "ensure_all_mappings c registry recreate w =
     (case get_mappings c w of
        (Inl e, w1) \<Rightarrow> (Inl e, w1)
      | (Inr doc_mapping, w1) \<Rightarrow>
          if \<not> truthy doc_mapping \<or> recreate then
            (case request c
                    (Indices_put_mapping (index c) (JDict (collect_mappings registry []))) w1 of
               (Inl e, w2) \<Rightarrow> (Inl e, w2)
             | (Inr _, w2) \<Rightarrow> (Inr (), w2))
          else (Inr (), w1))"

subsection \<open>Deferred calls\<close>

text \<open>
  Modelled from the spec: the decorator \<^verbatim>\<open>transactional\<close> and the base class
  \<^verbatim>\<open>TransactionClient\<close> come from \<^verbatim>\<open>pyams_utils.transaction\<close>, which is not among the
  sources. The specification says: if the transactional flag is true, the operation is
  registered with the active unit of work and physically applied only on commit of that
  unit of work; if the flag is false, the operation applies immediately, synchronously,
  with no deferral. On commit the queued operations are applied in registration order; a
  queued operation that fails stops the commit, with the operations before it applied;
  on abort the queue is discarded. A deferred operation exists only between the call that
  registers it and the commit or abort that resolves it.
\<close>

definition transactional ::
  "('s client \<Rightarrow> deferred \<Rightarrow> 's world \<Rightarrow> (error + unit) \<times> 's world)
     \<Rightarrow> 's client \<Rightarrow> deferred \<Rightarrow> 's world \<Rightarrow> (error + unit) \<times> 's world" where
  "transactional method c d w =
     (if use_transaction c then (Inr (), w\<lparr>pending := pending w @ [d]\<rparr>)
      else method c d w)"

text \<open>
  Modelled from the spec: the commit of the participant of \<^verbatim>\<open>pyams_utils.transaction\<close>
  applies all queued operations in registration order; a failure of one of them is the
  failure of the commit, with the queue applied up to the failing operation.
\<close>

fun apply_all ::
  "('s client \<Rightarrow> deferred \<Rightarrow> 's world \<Rightarrow> (error + unit) \<times> 's world)
     \<Rightarrow> 's client \<Rightarrow> deferred list \<Rightarrow> 's world \<Rightarrow> (error + unit) \<times> 's world" where
  "apply_all method c [] w = (Inr (), w)"
| "apply_all method c (d # ds) w =
     (case method c d w of
        (Inl e, w1) \<Rightarrow> (Inl e, w1)
      | (Inr _, w1) \<Rightarrow> apply_all method c ds w1)"

text \<open>
  Modelled from the spec: on commit the queue of the unit of work is applied and does not
  outlive the commit.
\<close>

definition commit_with ::
  "('s client \<Rightarrow> deferred \<Rightarrow> 's world \<Rightarrow> (error + unit) \<times> 's world)
     \<Rightarrow> 's client \<Rightarrow> 's world \<Rightarrow> (error + unit) \<times> 's world" where
  "commit_with method c w = apply_all method c (pending w) (w\<lparr>pending := []\<rparr>)"

text \<open>Modelled from the spec: on abort the participant discards the queued operations.\<close>

definition abort :: "'s world \<Rightarrow> 's world" where
  "abort w = w\<lparr>pending := []\<rparr>"

subsection \<open>Documents\<close>

text \<open>
  The body of \<^verbatim>\<open>index_document\<close>, under its decorator. \<^verbatim>\<open>kwargs['document']\<close> is the
  dictionary \<^verbatim>\<open>doc\<close> itself, so the pop of the pipeline marker, which comes after
  \<^verbatim>\<open>kwargs\<close> is built, also removes the marker from the document that is sent.
\<close>

definition index_document_body ::
  "'s client \<Rightarrow> json \<Rightarrow> dict \<Rightarrow> 's world \<Rightarrow> (error + unit) \<times> 's world" where
  "index_document_body c doc_id doc w =
     (if disable_indexing c then (Inr (), w)
      else
        (case (if dict_contains doc ''__pipeline__'' then
                 (case dict_pop doc ''__pipeline__'' of
                    Inl e \<Rightarrow> Inl e
                  | Inr (p, doc') \<Rightarrow> Inr (Es_index (index c) doc' doc_id (Some p)))
               else Inr (Es_index (index c) doc doc_id None)) of
           Inl e \<Rightarrow> (Inl e, w)
         | Inr kwargs \<Rightarrow>
             (case request c kwargs w of
                (Inl e, w1) \<Rightarrow> (Inl e, w1)
              | (Inr _, w1) \<Rightarrow> (Inr (), w1))))"

text \<open>The body of \<^verbatim>\<open>delete_document\<close>, under its decorator.\<close>

definition delete_document_body ::
  "'s client \<Rightarrow> json \<Rightarrow> bool \<Rightarrow> 's world \<Rightarrow> (error + unit) \<times> 's world" where
  "delete_document_body c doc_id safe w =
     (if disable_indexing c then (Inr (), w)
      else
        (case request c (Es_delete (index c) doc_id) w of
           (Inl (NotFoundError m), w1) \<Rightarrow>
             if \<not> safe then (Inl (NotFoundError m), w1) else (Inr (), w1)
         | (Inl e, w1) \<Rightarrow> (Inl e, w1)
         | (Inr _, w1) \<Rightarrow> (Inr (), w1)))"

text \<open>Running a call that was put aside runs the body of the method it names.\<close>

fun run_deferred :: "'s client \<Rightarrow> deferred \<Rightarrow> 's world \<Rightarrow> (error + unit) \<times> 's world" where
  "run_deferred c (Index_document doc_id doc) w = index_document_body c doc_id doc w"
| "run_deferred c (Delete_document doc_id safe) w = delete_document_body c doc_id safe w"

definition index_document ::
  "'s client \<Rightarrow> json \<Rightarrow> dict \<Rightarrow> 's world \<Rightarrow> (error + unit) \<times> 's world" where
  "index_document c doc_id doc w = transactional run_deferred c (Index_document doc_id doc) w"

definition delete_document ::
  "'s client \<Rightarrow> json \<Rightarrow> bool \<Rightarrow> 's world \<Rightarrow> (error + unit) \<times> 's world" where
  "delete_document c doc_id safe w = transactional run_deferred c (Delete_document doc_id safe) w"

text \<open>
  Modelled from the spec: the commit of a unit of work whose queued operations are calls
  of the two decorated methods of the client.
\<close>

definition commit :: "'s client \<Rightarrow> 's world \<Rightarrow> (error + unit) \<times> 's world" where
  "commit c w = commit_with run_deferred c w"

text \<open>
  An object as the client sees it: what its \<^verbatim>\<open>elastic_document()\<close> returns, and its
  attribute \<^verbatim>\<open>id\<close> when it has one.
\<close>

record es_object =
  elastic_document :: dict
  id_attribute :: "json option"

definition index_object :: "'s client \<Rightarrow> es_object \<Rightarrow> 's world \<Rightarrow> (error + unit) \<times> 's world" where
  "index_object c obj w =
     (case dict_pop (elastic_document obj) ''_id'' of
        Inl e \<Rightarrow> (Inl e, w)
      | Inr (doc_id, doc) \<Rightarrow> index_document c doc_id doc w)"

fun index_objects :: "'s client \<Rightarrow> es_object list \<Rightarrow> 's world \<Rightarrow> (error + unit) \<times> 's world" where
  "index_objects c [] w = (Inr (), w)"
| "index_objects c (obj # objects) w =
     (case index_object c obj w of
        (Inl e, w1) \<Rightarrow> (Inl e, w1)
      | (Inr _, w1) \<Rightarrow> index_objects c objects w1)"

definition delete_object ::
  "'s client \<Rightarrow> es_object \<Rightarrow> bool \<Rightarrow> 's world \<Rightarrow> (error + unit) \<times> 's world" where
  "delete_object c obj safe w =
     (case dict_pop (elastic_document obj) ''_id'' of
        Inl e \<Rightarrow> (Inl e, w)
      | Inr (doc_id, doc) \<Rightarrow> delete_document c doc_id safe w)"

subsection \<open>Reading a document\<close>






section \<open>A server in memory\<close>

text \<open>
  To run the client on concrete inputs, a small stand-in for the connection object: each
  index has a mapping and documents by id. A missing index or document answers
  NotFoundError, as the Elasticsearch client library does. The theorems below hold for
  every connection; this one only serves the examples.
\<close>

type_synonym store = "(string \<times> (dict \<times> (json \<times> dict) list)) list"

fun memory_es :: "es_call \<Rightarrow> store \<Rightarrow> (error + json) \<times> store" where
  "memory_es (Indices_exists i) s = (Inr (JBool (map_of s i \<noteq> None)), s)"
| "memory_es (Indices_delete i) s =
     (case map_of s i of
        None \<Rightarrow> (Inl (NotFoundError i), s)
      | Some _ \<Rightarrow> (Inr (JDict [(''acknowledged'', JBool True)]), AList.delete i s))"
| "memory_es (Indices_create i body) s =
     (case map_of s i of
        Some _ \<Rightarrow> (Inl (TransportError ''resource_already_exists_exception''), s)
      | None \<Rightarrow> (Inr (JDict [(''acknowledged'', JBool True)]), AList.update i ([], []) s))"
| "memory_es (Indices_get_mapping i) s =
     (case map_of s i of
        None \<Rightarrow> (Inl (NotFoundError i), s)
      | Some (m, docs) \<Rightarrow> (Inr (JDict [(i, JDict [(''mappings'', JDict m)])]), s))"
| "memory_es (Indices_put_mapping i body) s =
     (case map_of s i of
        None \<Rightarrow> (Inl (NotFoundError i), s)
      | Some (m, docs) \<Rightarrow>
          (case body of
             JDict b \<Rightarrow>
               (Inr (JDict [(''acknowledged'', JBool True)]),
                AList.update i (dict_update m b, docs) s)
           | _ \<Rightarrow> (Inl (TransportError ''parse_exception''), s)))"
| "memory_es (Es_index i doc doc_id pipeline) s =
     (case map_of s i of
        None \<Rightarrow> (Inr (JDict [(''result'', JStr ''created'')]),
                 AList.update i ([], [(doc_id, doc)]) s)
      | Some (m, docs) \<Rightarrow>
          (Inr (JDict [(''result'',
                  JStr (if map_of docs doc_id = None then ''created'' else ''updated''))]),
           AList.update i (m, AList.update doc_id doc docs) s))"
| "memory_es (Es_delete i doc_id) s =
     (case map_of s i of
        None \<Rightarrow> (Inl (NotFoundError i), s)
      | Some (m, docs) \<Rightarrow>
          (case map_of docs doc_id of
             None \<Rightarrow> (Inl (NotFoundError ''not_found''), s)
           | Some _ \<Rightarrow>
               (Inr (JDict [(''result'', JStr ''deleted'')]),
                AList.update i (m, AList.delete doc_id docs) s)))"
| "memory_es (Es_get i doc_id) s =
     (case map_of s i of
        None \<Rightarrow> (Inl (NotFoundError i), s)
      | Some (m, docs) \<Rightarrow>
          (case map_of docs doc_id of
             None \<Rightarrow> (Inl (NotFoundError ''not_found''), s)
           | Some doc \<Rightarrow>
               (Inr (JDict [(''_index'', JStr i), (''_id'', doc_id), (''found'', JBool True),
                            (''_source'', JDict doc)]), s)))"
| "memory_es Es_close s = (Inr JNone, s)"

definition memory_client :: "string \<Rightarrow> bool \<Rightarrow> bool \<Rightarrow> store client" where
  "memory_client i disabled transact =
     \<lparr>es = memory_es, index = i, disable_indexing = disabled, use_transaction = transact\<rparr>"

definition start :: "store \<Rightarrow> store world" where
  "start s = \<lparr>server = s, calls = [], pending = []\<rparr>"

text \<open>
  A connection that only remembers whether it is still open: a close request shuts it,
  every other request leaves it as it is.
\<close>

fun latch_es :: "es_call \<Rightarrow> bool \<Rightarrow> (error + json) \<times> bool" where
  "latch_es Es_close opened = (Inr JNone, False)"
| "latch_es call opened = (Inr JNone, opened)"

section \<open>Observations\<close>

text \<open>
  The world once the connection has answered one request: the server is in the state the
  connection left it in, the exchange is recorded, the queue of the transaction is as it
  was. \<open>send_all\<close> is the world after a list of requests, one after the other.
\<close>

definition sent :: "'s client \<Rightarrow> es_call \<Rightarrow> 's world \<Rightarrow> 's world" where
  "sent c call w =
     w\<lparr>server := snd (es c call (server w)),
       calls := calls w @ [(call, fst (es c call (server w)))]\<rparr>"

fun send_all :: "'s client \<Rightarrow> es_call list \<Rightarrow> 's world \<Rightarrow> 's world" where
  "send_all c [] w = w"
| "send_all c (call # rest) w = send_all c rest (sent c call w)"

text \<open>The server and the record of exchanges are as they were: nothing reached the server.\<close>

definition quiet :: "'s world \<Rightarrow> 's world \<Rightarrow> bool" where
  "quiet w w' = (server w' = server w \<and> calls w' = calls w)"

fun is_put_mapping :: "es_call \<Rightarrow> bool" where
  "is_put_mapping (Indices_put_mapping i body) = True"
| "is_put_mapping _ = False"


text \<open>
  The request that running a deferred call sends when indexing is not disabled: an index
  request with the document less its pipeline marker, routed through the pipeline the
  marker named, or a delete request.
\<close>

fun engine_call :: "'s client \<Rightarrow> deferred \<Rightarrow> es_call" where
  "engine_call c (Index_document doc_id doc) =
     Es_index (index c) (AList.delete ''__pipeline__'' doc) doc_id (map_of doc ''__pipeline__'')"
| "engine_call c (Delete_document doc_id safe) = Es_delete (index c) doc_id"

text \<open>
  A Python dictionary holds each key once. A class is well formed when the dictionaries it
  hands out are.
\<close>

definition well_formed :: "es_class \<Rightarrow> bool" where
  "well_formed cls =
     (distinct (map fst (elastic_mapping cls))
      \<and> list_all (\<lambda>e. distinct (map fst e)) (mapping_extensions cls))"

text \<open>
  The merge of \<open>ensure_all_mappings\<close> read as maps from field names to descriptors, where
  \<open>m ++ n\<close> is \<open>m\<close> overridden by \<open>n\<close>: a class contributes its own mapping overridden by
  its extensions in their order, provided it is indexable and its own mapping is not
  empty, and nothing otherwise; the classes are merged in the order of the registry.
\<close>

definition contribution :: "es_class \<Rightarrow> string \<rightharpoonup> json" where
  "contribution cls =
     (if provides_mapping cls \<and> elastic_mapping cls \<noteq> []
      then foldl (++) (map_of (elastic_mapping cls)) (map map_of (mapping_extensions cls))
      else Map.empty)"

definition merged :: "es_class list \<Rightarrow> string \<rightharpoonup> json" where
  "merged registry = foldl (++) Map.empty (map contribution registry)"

section \<open>Requests and the record of exchanges\<close>

lemma request_result: "fst (request c call w) = fst (es c call (server w))"
  by (simp add: request_def split: prod.splits)

lemma request_calls:
  "calls (snd (request c call w)) = calls w @ [(call, fst (es c call (server w)))]"
  by (simp add: request_def split: prod.splits)

lemma request_pending: "pending (snd (request c call w)) = pending w"
  by (simp add: request_def split: prod.splits)

lemma issued_same: "issued w w = []"
  by (simp add: issued_def)

lemma issued_appended: "calls w' = calls w @ xs \<Longrightarrow> issued w w' = xs"
  by (simp add: issued_def)

lemma issued_request:
  "issued w (snd (request c call w)) = [(call, fst (es c call (server w)))]"
  by (simp add: issued_appended request_calls)

lemma request_cases:
  obtains r s' where
    "request c call w = (r, w\<lparr>server := s', calls := calls w @ [(call, r)]\<rparr>)"
    "es c call (server w) = (r, s')"
  by (cases "es c call (server w)") (simp add: request_def)

lemma request_sent:
  "request c call w = (fst (es c call (server w)), sent c call w)"
  by (cases "es c call (server w)") (simp add: request_def sent_def)

lemma issued_sent: "issued w (sent c call w) = [(call, fst (es c call (server w)))]"
  by (simp add: issued_def sent_def)

lemma issued_pending_update: "issued w (w'\<lparr>pending := q\<rparr>) = issued w w'"
  by (simp add: issued_def)

section \<open>Deleting the index\<close>

text \<open>
  C7. \<open>delete_index\<close> sends the delete request for the client's index whatever the state,
  and nothing else: the world after it is the world after that one request, with the
  server in the state the connection left it in. It returns normally when the connection
  does, and every exception the connection answers with, NotFoundError for an absent index
  among them, is the outcome of \<open>delete_index\<close>, with the same payload.
\<close>

theorem delete_index_propagates:
  "snd (delete_index c w) = sent c (Indices_delete (index c)) w
   \<and> fst (delete_index c w)
       = (case fst (es c (Indices_delete (index c)) (server w)) of
            Inl e \<Rightarrow> Inl e
          | Inr v \<Rightarrow> Inr ())
   \<and> issued w (snd (delete_index c w))
       = [(Indices_delete (index c), fst (es c (Indices_delete (index c)) (server w)))]
   \<and> (\<forall>e. fst (es c (Indices_delete (index c)) (server w)) = Inl e
          \<longrightarrow> fst (delete_index c w) = Inl e)"
proof -
  have world: "snd (delete_index c w) = sent c (Indices_delete (index c)) w"
    by (simp add: delete_index_def request_sent split: sum.splits)
  have outcome: "fst (delete_index c w)
       = (case fst (es c (Indices_delete (index c)) (server w)) of
            Inl e \<Rightarrow> Inl e
          | Inr v \<Rightarrow> Inr ())"
    by (simp add: delete_index_def request_sent split: sum.splits)
  show ?thesis
    using outcome by (simp add: world issued_sent)
qed

theorem delete_index_propagates_witness:
  "delete_index (memory_client ''main'' False True)
       (start [(''main'', ([(''title'', JStr ''text'')], [(JStr ''1'', [(''title'', JStr ''a'')])]))])
     = (Inr (),
        \<lparr>server = [],
           calls = [(Indices_delete ''main'', Inr (JDict [(''acknowledged'', JBool True)]))],
           pending = []\<rparr>)
   \<and> fst (memory_es (Indices_delete ''main'') []) = Inl (NotFoundError ''main'')
   \<and> delete_index (memory_client ''main'' False True) (start [])
       = (Inl (NotFoundError ''main''),
          \<lparr>server = [],
             calls = [(Indices_delete ''main'', Inl (NotFoundError ''main''))],
             pending = []\<rparr>)"
  using delete_index_propagates
          [of "memory_client ''main'' False True"
              "start [(''main'', ([(''title'', JStr ''text'')],
                        [(JStr ''1'', [(''title'', JStr ''a'')])]))]"]
        delete_index_propagates [of "memory_client ''main'' False True" "start []"]
  by (simp add: memory_client_def start_def delete_index_def request_def sent_def
        AList.delete_eq)

section \<open>Creating the index\<close>

lemma default_settings_lookup:
  "map_of CREATE_INDEX_SETTINGS ''index''
     = Some (JDict [(''number_of_shards'', JInt 2), (''number_of_replicas'', JInt 0)])
   \<and> map_of CREATE_INDEX_SETTINGS ''analysis'' = map_of ANALYZER_SETTINGS ''analysis''"
  by (simp add: CREATE_INDEX_SETTINGS_def ANALYZER_SETTINGS_def dict_update_def)

text \<open>
  C4. With \<open>recreate\<close> false, \<open>ensure_index\<close> asks whether the index exists. When the
  answer is true it stops there and returns: the world is the world after the question,
  so no create and no delete is sent. When the answer is false it sends one create request
  after the question and nothing else, the server ends in the state the connection
  reached on that create request, and the outcome is that of the create request. The body
  of the create request holds the settings of the caller, or \<open>CREATE_INDEX_SETTINGS\<close> when
  the caller gave none (None, or an empty document): the analyzers of
  \<open>ANALYZER_SETTINGS\<close> with two shards and no replica.
\<close>

theorem ensure_index_idempotent:
  "(\<forall>r. fst (es c (Indices_exists (index c)) (server w)) = Inr r \<and> truthy r
        \<longrightarrow> ensure_index c False settings w = (Inr (), sent c (Indices_exists (index c)) w)
            \<and> map fst (issued w (snd (ensure_index c False settings w)))
                = [Indices_exists (index c)])
   \<and> (\<forall>r. fst (es c (Indices_exists (index c)) (server w)) = Inr r \<and> \<not> truthy r
        \<longrightarrow> snd (ensure_index c False settings w)
              = sent c
                  (Indices_create (index c)
                     (JDict [(''settings'',
                        if truthy settings then settings else JDict CREATE_INDEX_SETTINGS)]))
                  (sent c (Indices_exists (index c)) w)
            \<and> fst (ensure_index c False settings w)
              = (case fst (es c
                         (Indices_create (index c)
                            (JDict [(''settings'',
                               if truthy settings then settings
                               else JDict CREATE_INDEX_SETTINGS)]))
                         (server (sent c (Indices_exists (index c)) w))) of
                   Inl e \<Rightarrow> Inl e
                 | Inr v \<Rightarrow> Inr ())
            \<and> map fst (issued w (snd (ensure_index c False settings w)))
              = [Indices_exists (index c),
                 Indices_create (index c)
                   (JDict [(''settings'',
                      if truthy settings then settings else JDict CREATE_INDEX_SETTINGS)])])
   \<and> map_of CREATE_INDEX_SETTINGS ''index''
       = Some (JDict [(''number_of_shards'', JInt 2), (''number_of_replicas'', JInt 0)])
   \<and> map_of CREATE_INDEX_SETTINGS ''analysis'' = map_of ANALYZER_SETTINGS ''analysis''"
proof -
  define body where
    "body = JDict [(''settings'',
               if truthy settings then settings else JDict CREATE_INDEX_SETTINGS)]"
  let ?exists = "Indices_exists (index c)"
  let ?create = "Indices_create (index c) body"
  have code: "ensure_index c False settings w =
     (case request c ?exists w of
        (Inl e, w1) \<Rightarrow> (Inl e, w1)
      | (Inr exists, w1) \<Rightarrow>
          if \<not> truthy exists then
            (case request c ?create w1 of
               (Inl e, w3) \<Rightarrow> (Inl e, w3)
             | (Inr v, w3) \<Rightarrow> (Inr (), w3))
          else (Inr (), w1))"
    unfolding ensure_index_def body_def
    by (simp split: prod.splits sum.splits)
  have asked: "request c ?exists w = (fst (es c ?exists (server w)), sent c ?exists w)"
    by (rule request_sent)
  have created: "request c ?create (sent c ?exists w)
                   = (fst (es c ?create (server (sent c ?exists w))),
                      sent c ?create (sent c ?exists w))"
    by (rule request_sent)
  have present: "ensure_index c False settings w = (Inr (), sent c ?exists w)
            \<and> map fst (issued w (snd (ensure_index c False settings w))) = [?exists]"
    if "fst (es c ?exists (server w)) = Inr r" "truthy r" for r
    using that by (simp add: code asked issued_sent)
  have absent: "snd (ensure_index c False settings w) = sent c ?create (sent c ?exists w)
            \<and> fst (ensure_index c False settings w)
              = (case fst (es c ?create (server (sent c ?exists w))) of
                   Inl e \<Rightarrow> Inl e
                 | Inr v \<Rightarrow> Inr ())
            \<and> map fst (issued w (snd (ensure_index c False settings w)))
              = [?exists, ?create]"
    if h: "fst (es c ?exists (server w)) = Inr r" "\<not> truthy r" for r
  proof -
    have run: "ensure_index c False settings w
                 = (case fst (es c ?create (server (sent c ?exists w))) of
                      Inl e \<Rightarrow> Inl e
                    | Inr v \<Rightarrow> Inr (),
                    sent c ?create (sent c ?exists w))"
      using h by (simp add: code asked created split: sum.splits)
    have "map fst (issued w (sent c ?create (sent c ?exists w))) = [?exists, ?create]"
      by (simp add: issued_def sent_def)
    then show ?thesis
      by (simp add: run)
  qed
  show ?thesis
    using present absent default_settings_lookup unfolding body_def by blast
qed

theorem ensure_index_idempotent_witness:
  "fst (memory_es (Indices_exists ''main'') [(''main'', ([], []))]) = Inr (JBool True)
   \<and> truthy (JBool True)
   \<and> ensure_index (memory_client ''main'' False True) False JNone
         (start [(''main'', ([], []))])
       = (Inr (),
          \<lparr>server = [(''main'', ([], []))],
             calls = [(Indices_exists ''main'', Inr (JBool True))], pending = []\<rparr>)
   \<and> fst (memory_es (Indices_exists ''main'') []) = Inr (JBool False)
   \<and> \<not> truthy (JBool False)
   \<and> fst (ensure_index (memory_client ''main'' False True) False JNone (start [])) = Inr ()
   \<and> server (snd (ensure_index (memory_client ''main'' False True) False JNone (start [])))
       = [(''main'', ([], []))]
   \<and> map fst (calls (snd (ensure_index (memory_client ''main'' False True) False JNone
                            (start []))))
       = [Indices_exists ''main'',
          Indices_create ''main'' (JDict [(''settings'', JDict CREATE_INDEX_SETTINGS)])]"
  using ensure_index_idempotent
          [of "memory_client ''main'' False True" "start [(''main'', ([], []))]" JNone]
        ensure_index_idempotent [of "memory_client ''main'' False True" "start []" JNone]
  by (simp add: memory_client_def start_def ensure_index_def request_def sent_def)

section \<open>Mappings are pushed once\<close>

lemma get_mappings_calls:
  "calls (snd (get_mappings c w))
     = calls w @ [(Indices_get_mapping (index c),
                   fst (es c (Indices_get_mapping (index c)) (server w)))]"
  by (rule request_cases [of c "Indices_get_mapping (index c)" w])
     (simp add: get_mappings_def split: sum.splits)

lemma get_mappings_issued:
  "map fst (issued w (snd (get_mappings c w))) = [Indices_get_mapping (index c)]"
  by (simp add: issued_def get_mappings_calls)





section \<open>Disabled indexing\<close>

lemma quiet_same: "quiet w w"
  by (simp add: quiet_def)

lemma quiet_pending: "quiet w (w\<lparr>pending := q\<rparr>)"
  by (simp add: quiet_def)

lemma quiet_trans: "quiet w w1 \<Longrightarrow> quiet w1 w2 \<Longrightarrow> quiet w w2"
  by (simp add: quiet_def)

lemma run_deferred_disabled: "disable_indexing c \<Longrightarrow> run_deferred c d w = (Inr (), w)"
  by (cases d) (simp_all add: index_document_body_def delete_document_body_def)

lemma apply_all_disabled:
  "disable_indexing c \<Longrightarrow> apply_all run_deferred c ds w = (Inr (), w)"
  by (induction ds) (simp_all add: run_deferred_disabled)

lemma transactional_disabled:
  "disable_indexing c \<Longrightarrow> quiet w (snd (transactional run_deferred c d w))"
  by (simp add: transactional_def run_deferred_disabled quiet_same quiet_pending)

lemma index_object_disabled:
  "disable_indexing c \<Longrightarrow> quiet w (snd (index_object c obj w))"
  by (simp add: index_object_def index_document_def transactional_disabled quiet_same
        split: sum.splits prod.splits)

lemma index_objects_disabled:
  "disable_indexing c \<Longrightarrow> quiet w (snd (index_objects c objects w))"
proof (induction objects arbitrary: w)
  case Nil
  then show ?case by (simp add: quiet_same)
next
  case (Cons obj objects)
  obtain r w1 where step: "index_object c obj w = (r, w1)"
    by fastforce
  have q1: "quiet w w1"
    using index_object_disabled [OF Cons.prems, of w obj] step by simp
  show ?case
  proof (cases r)
    case (Inl e)
    then show ?thesis using step q1 by simp
  next
    case (Inr u)
    then show ?thesis
      using step quiet_trans [OF q1 Cons.IH [OF Cons.prems, of w1]] by simp
  qed
qed

text \<open>
  C2. When \<open>disable_indexing\<close> is set, no request reaches the server and the server stays
  as it was, through \<open>index_document\<close>, \<open>delete_document\<close>, \<open>index_object\<close>,
  \<open>index_objects\<close> over any number of objects and \<open>delete_object\<close>, whether the client is
  transactional or not, and also when a transaction that holds deferred calls commits.
\<close>

theorem disabled_indexing_reaches_nothing:
  assumes "disable_indexing c"
  shows "quiet w (snd (index_document c doc_id doc w))
       \<and> quiet w (snd (delete_document c doc_id safe w))
       \<and> quiet w (snd (index_object c obj w))
       \<and> quiet w (snd (index_objects c objects w))
       \<and> quiet w (snd (delete_object c obj safe w))
       \<and> quiet w (snd (commit c w))"
proof -
  have "quiet w (snd (delete_object c obj safe w))"
    using assms
    by (simp add: delete_object_def delete_document_def transactional_disabled quiet_same
          split: sum.splits prod.splits)
  moreover have "quiet w (snd (commit c w))"
    using assms by (simp add: commit_def commit_with_def apply_all_disabled quiet_pending)
  ultimately show ?thesis
    using assms
    by (simp add: index_document_def delete_document_def transactional_disabled
          index_object_disabled index_objects_disabled)
qed

theorem disabled_indexing_reaches_nothing_witness:
  "disable_indexing (memory_client ''main'' True False)
   \<and> snd (index_objects (memory_client ''main'' True False)
        [\<lparr>elastic_document = [(''_id'', JStr ''1''), (''title'', JStr ''a'')],
            id_attribute = None\<rparr>,
         \<lparr>elastic_document = [(''_id'', JStr ''2''), (''title'', JStr ''b'')],
            id_attribute = None\<rparr>] (start []))
       = start []
   \<and> quiet (start [])
       (snd (delete_document (memory_client ''main'' True False) (JStr ''1'') False (start [])))"
  using disabled_indexing_reaches_nothing
          [of "memory_client ''main'' True False" "start []" "JStr ''1''" "[]" False
              "\<lparr>elastic_document = [], id_attribute = None\<rparr>"
              "[\<lparr>elastic_document = [(''_id'', JStr ''1''), (''title'', JStr ''a'')],
                  id_attribute = None\<rparr>,
                \<lparr>elastic_document = [(''_id'', JStr ''2''), (''title'', JStr ''b'')],
                  id_attribute = None\<rparr>]"]
  by (simp add: memory_client_def start_def index_object_def index_document_def
        transactional_def index_document_body_def dict_pop_def AList.delete_eq)

section \<open>Deleting a document that is not there\<close>



section \<open>The client in a with statement\<close>

text \<open>
  C10. In a \<^verbatim>\<open>with\<close> statement the body receives what \<^verbatim>\<open>__enter__\<close> returns, which is the
  connection object \<^verbatim>\<open>self.es\<close> and not the client. Whatever the body does, return or
  raise, the world after the statement is the world the body left with one close request
  answered by the connection: the connection is closed on every path. When the close
  succeeds the outcome of the body, an exception included, is the outcome of the whole
  statement; an exception of the close request replaces it.
\<close>

theorem with_client_closes:
  "enter c = es c
   \<and> snd (with_client c body w) = sent c Es_close (snd (body (enter c) w))
   \<and> fst (with_client c body w)
       = (case fst (es c Es_close (server (snd (body (enter c) w)))) of
            Inl e \<Rightarrow> Inl e
          | Inr v \<Rightarrow> fst (body (enter c) w))
   \<and> map fst (issued (snd (body (enter c) w)) (snd (with_client c body w))) = [Es_close]
   \<and> (\<forall>e v. fst (body (enter c) w) = Inl e
             \<and> fst (es c Es_close (server (snd (body (enter c) w)))) = Inr v
          \<longrightarrow> fst (with_client c body w) = Inl e)"
proof -
  obtain r w1 where ran: "body (es c) w = (r, w1)"
    by fastforce
  have run: "with_client c body w
               = (case fst (es c Es_close (server w1)) of Inl e \<Rightarrow> Inl e | Inr v \<Rightarrow> r,
                  sent c Es_close w1)"
    by (simp add: with_client_def exit_def enter_def ran request_sent split: sum.splits)
  show ?thesis
    unfolding enter_def run ran
    by (auto simp: issued_sent split: sum.splits)
qed

theorem with_client_closes_witness:
  "fst ((\<lambda>h w. (Inl ValueError :: error + unit, w))
          (enter \<lparr>es = latch_es, index = ''main'', disable_indexing = False,
                   use_transaction = True\<rparr>)
          \<lparr>server = True, calls = [], pending = []\<rparr>) = Inl ValueError
   \<and> fst (latch_es Es_close True) = Inr JNone
   \<and> with_client \<lparr>es = latch_es, index = ''main'', disable_indexing = False,
                    use_transaction = True\<rparr>
        (\<lambda>h w. (Inl ValueError :: error + unit, w))
        \<lparr>server = True, calls = [], pending = []\<rparr>
       = (Inl ValueError, \<lparr>server = False, calls = [(Es_close, Inr JNone)], pending = []\<rparr>)
   \<and> with_client \<lparr>es = latch_es, index = ''main'', disable_indexing = False,
                    use_transaction = True\<rparr>
        (\<lambda>h w. (Inr (fst (h (Indices_exists ''main'') (server w))), w))
        \<lparr>server = True, calls = [], pending = []\<rparr>
       = (Inr (Inr JNone), \<lparr>server = False, calls = [(Es_close, Inr JNone)], pending = []\<rparr>)"
  using with_client_closes
          [of "\<lparr>es = latch_es, index = ''main'', disable_indexing = False,
                 use_transaction = True\<rparr>"
              "\<lambda>h w. (Inl ValueError :: error + unit, w)"
              "\<lparr>server = True, calls = [], pending = []\<rparr>"]
  by (simp add: with_client_def enter_def exit_def request_def sent_def)

section \<open>What a deferred call sends\<close>




lemma run_deferred_pending: "pending (snd (run_deferred c d w)) = pending w"
proof (cases d)
  case (Index_document doc_id doc)
  show ?thesis
  proof (cases "map_of doc ''__pipeline__''")
    case None
    show ?thesis
      by (rule request_cases [of c "Es_index (index c) doc doc_id None" w])
         (use None Index_document in
            \<open>simp add: index_document_body_def dict_contains_def split: sum.splits\<close>)
  next
    case (Some p)
    show ?thesis
      by (rule request_cases
            [of c "Es_index (index c) (AList.delete ''__pipeline__'' doc) doc_id (Some p)" w])
         (use Some Index_document in
            \<open>simp add: index_document_body_def dict_contains_def dict_pop_def
               split: sum.splits\<close>)
  qed
next
  case (Delete_document doc_id safe)
  show ?thesis
    by (rule request_cases [of c "Es_delete (index c) doc_id" w])
       (use Delete_document in
          \<open>simp add: delete_document_body_def split: sum.splits error.splits\<close>)
qed



lemma apply_all_pending:
  "pending (snd (apply_all run_deferred c ds w)) = pending w"
proof (induction ds arbitrary: w)
  case Nil
  then show ?case by simp
next
  case (Cons d ds)
  obtain r w1 where step: "run_deferred c d w = (r, w1)"
    by fastforce
  have "pending w1 = pending w"
    using run_deferred_pending [of c d w] step by simp
  then show ?case
    using step Cons.IH [of w1] by (cases r) simp_all
qed

section \<open>The transactional contract\<close>

lemma index_document_body_sent:
  assumes "\<not> disable_indexing c"
  shows "snd (index_document_body c doc_id doc w)
           = sent c (engine_call c (Index_document doc_id doc)) w"
proof (cases "map_of doc ''__pipeline__''")
  case None
  then have same: "AList.delete ''__pipeline__'' doc = doc"
    by (simp add: map_of_eq_None_iff)
  show ?thesis
    using assms None same
    by (simp add: index_document_body_def dict_contains_def request_sent split: sum.splits)
next
  case (Some p)
  show ?thesis
    using assms Some
    by (simp add: index_document_body_def dict_contains_def dict_pop_def request_sent
          split: sum.splits)
qed

lemma delete_document_body_sent:
  assumes "\<not> disable_indexing c"
  shows "snd (delete_document_body c doc_id safe w)
           = sent c (engine_call c (Delete_document doc_id safe)) w"
  using assms
  by (simp add: delete_document_body_def request_sent split: sum.splits error.splits)

lemma run_deferred_sent:
  "\<not> disable_indexing c \<Longrightarrow> snd (run_deferred c d w) = sent c (engine_call c d) w"
  by (cases d) (simp_all add: index_document_body_sent delete_document_body_sent)

lemma apply_all_succeeds:
  assumes "\<not> disable_indexing c" and "fst (apply_all run_deferred c ds w) = Inr ()"
  shows "snd (apply_all run_deferred c ds w) = send_all c (map (engine_call c) ds) w"
  using assms(2)
proof (induction ds arbitrary: w)
  case Nil
  then show ?case by simp
next
  case (Cons d ds)
  obtain r w1 where step: "run_deferred c d w = (r, w1)"
    by fastforce
  have w1: "w1 = sent c (engine_call c d) w"
    using run_deferred_sent [OF assms(1), of d w] step by simp
  show ?case
  proof (cases r)
    case (Inl e)
    then show ?thesis using Cons.prems step by simp
  next
    case (Inr u)
    then have "fst (apply_all run_deferred c ds w1) = Inr ()"
      using Cons.prems step by simp
    then show ?thesis
      using Cons.IH [of w1] step Inr w1 by simp
  qed
qed

lemma apply_all_fails:
  assumes "\<not> disable_indexing c" and "fst (apply_all run_deferred c ds w) = Inl e"
  shows "\<exists>n<length ds.
           snd (apply_all run_deferred c ds w)
             = send_all c (map (engine_call c) (take (Suc n) ds)) w
           \<and> fst (run_deferred c (ds ! n) (send_all c (map (engine_call c) (take n ds)) w))
             = Inl e"
  using assms(2)
proof (induction ds arbitrary: w)
  case Nil
  then show ?case by simp
next
  case (Cons d ds)
  obtain r w1 where step: "run_deferred c d w = (r, w1)"
    by fastforce
  have w1: "w1 = sent c (engine_call c d) w"
    using run_deferred_sent [OF assms(1), of d w] step by simp
  show ?case
  proof (cases r)
    case (Inl e')
    then have "snd (apply_all run_deferred c (d # ds) w)
                 = send_all c (map (engine_call c) (take (Suc 0) (d # ds))) w
               \<and> fst (run_deferred c ((d # ds) ! 0)
                        (send_all c (map (engine_call c) (take 0 (d # ds))) w)) = Inl e"
      using Cons.prems step w1 by simp
    then show ?thesis
      by (intro exI [of _ 0]) simp
  next
    case (Inr u)
    then have "fst (apply_all run_deferred c ds w1) = Inl e"
      using Cons.prems step by simp
    then obtain n where n: "n < length ds"
      "snd (apply_all run_deferred c ds w1)
         = send_all c (map (engine_call c) (take (Suc n) ds)) w1"
      "fst (run_deferred c (ds ! n) (send_all c (map (engine_call c) (take n ds)) w1)) = Inl e"
      using Cons.IH [of w1] by blast
    have "snd (apply_all run_deferred c (d # ds) w)
            = send_all c (map (engine_call c) (take (Suc (Suc n)) (d # ds))) w
          \<and> fst (run_deferred c ((d # ds) ! Suc n)
                   (send_all c (map (engine_call c) (take (Suc n) (d # ds))) w)) = Inl e"
      using step Inr w1 n(2,3) by simp
    then show ?thesis
      using n(1) by (intro exI [of _ "Suc n"]) simp
  qed
qed

text \<open>
  C1, as the model has it. With the transactional flag set, \<open>index_document\<close> and
  \<open>delete_document\<close> only add their call to the queue of the current transaction: the
  server and the record of exchanges stay as they were. With the flag clear they run the
  body of the method at once. Running a call, when indexing is not disabled, leaves the
  world as it is after the one request of that call, answered by the connection. A commit
  that succeeds leaves the world as it is after the requests of all queued calls, each
  once, in the order of registration. A commit that fails leaves the world as it is after
  the requests of the queued calls up to the one that failed, that one included, and none
  of the later ones: the earlier calls stay applied. Every commit empties the queue. An
  abort empties the queue and reaches nothing, and a commit after it has nothing to apply.
\<close>

theorem transactional_contract:
  "(use_transaction c \<longrightarrow>
       index_document c doc_id doc w
         = (Inr (), w\<lparr>pending := pending w @ [Index_document doc_id doc]\<rparr>)
     \<and> delete_document c doc_id safe w
         = (Inr (), w\<lparr>pending := pending w @ [Delete_document doc_id safe]\<rparr>))
   \<and> (\<not> use_transaction c \<longrightarrow>
       index_document c doc_id doc w = run_deferred c (Index_document doc_id doc) w
     \<and> delete_document c doc_id safe w = run_deferred c (Delete_document doc_id safe) w)
   \<and> (\<not> disable_indexing c \<longrightarrow>
       snd (run_deferred c d w) = sent c (engine_call c d) w)
   \<and> (\<not> disable_indexing c \<and> fst (commit c w) = Inr () \<longrightarrow>
       snd (commit c w)
         = send_all c (map (engine_call c) (pending w)) (w\<lparr>pending := []\<rparr>))
   \<and> (\<forall>e. \<not> disable_indexing c \<and> fst (commit c w) = Inl e \<longrightarrow>
       (\<exists>n<length (pending w).
          snd (commit c w)
            = send_all c (map (engine_call c) (take (Suc n) (pending w)))
                (w\<lparr>pending := []\<rparr>)
          \<and> fst (run_deferred c (pending w ! n)
                   (send_all c (map (engine_call c) (take n (pending w)))
                      (w\<lparr>pending := []\<rparr>))) = Inl e))
   \<and> pending (snd (commit c w)) = []
   \<and> quiet w (abort w) \<and> pending (abort w) = []
   \<and> commit c (abort w) = (Inr (), abort w)"
proof -
  have queued: "use_transaction c \<longrightarrow>
       index_document c doc_id doc w
         = (Inr (), w\<lparr>pending := pending w @ [Index_document doc_id doc]\<rparr>)
     \<and> delete_document c doc_id safe w
         = (Inr (), w\<lparr>pending := pending w @ [Delete_document doc_id safe]\<rparr>)"
    by (simp add: index_document_def delete_document_def transactional_def)
  have direct: "\<not> use_transaction c \<longrightarrow>
       index_document c doc_id doc w = run_deferred c (Index_document doc_id doc) w
     \<and> delete_document c doc_id safe w = run_deferred c (Delete_document doc_id safe) w"
    by (simp add: index_document_def delete_document_def transactional_def)
  have once: "\<not> disable_indexing c \<longrightarrow>
       snd (run_deferred c d w) = sent c (engine_call c d) w"
    by (simp add: run_deferred_sent)
  have complete: "\<not> disable_indexing c \<and> fst (commit c w) = Inr () \<longrightarrow>
       snd (commit c w)
         = send_all c (map (engine_call c) (pending w)) (w\<lparr>pending := []\<rparr>)"
    using apply_all_succeeds [of c "pending w" "w\<lparr>pending := []\<rparr>"]
    by (simp add: commit_def commit_with_def)
  have partial: "\<forall>e. \<not> disable_indexing c \<and> fst (commit c w) = Inl e \<longrightarrow>
       (\<exists>n<length (pending w).
          snd (commit c w)
            = send_all c (map (engine_call c) (take (Suc n) (pending w)))
                (w\<lparr>pending := []\<rparr>)
          \<and> fst (run_deferred c (pending w ! n)
                   (send_all c (map (engine_call c) (take n (pending w)))
                      (w\<lparr>pending := []\<rparr>))) = Inl e)"
    using apply_all_fails [of c "pending w" "w\<lparr>pending := []\<rparr>"]
    by (simp add: commit_def commit_with_def)
  have emptied: "pending (snd (commit c w)) = []"
    by (simp add: commit_def commit_with_def apply_all_pending)
  have aborted: "quiet w (abort w) \<and> pending (abort w) = []
       \<and> commit c (abort w) = (Inr (), abort w)"
    by (simp add: abort_def quiet_def commit_def commit_with_def)
  show ?thesis
    using queued direct once complete partial emptied aborted by blast
qed

theorem transactional_contract_witness:
  "use_transaction (memory_client ''main'' False True)
   \<and> \<not> disable_indexing (memory_client ''main'' False True)
   \<and> index_document (memory_client ''main'' False True) (JStr ''doc1'')
         [(''title'', JStr ''a'')] (start [(''main'', ([], []))])
       = (Inr (),
          \<lparr>server = [(''main'', ([], []))], calls = [],
             pending = [Index_document (JStr ''doc1'') [(''title'', JStr ''a'')]]\<rparr>)
   \<and> fst (commit (memory_client ''main'' False True)
            \<lparr>server = [(''main'', ([], []))], calls = [],
               pending = [Index_document (JStr ''doc1'') [(''title'', JStr ''a'')],
                          Index_document (JStr ''doc2'') [(''title'', JStr ''b'')],
                          Delete_document (JStr ''doc1'') False]\<rparr>) = Inr ()
   \<and> server (snd (commit (memory_client ''main'' False True)
            \<lparr>server = [(''main'', ([], []))], calls = [],
               pending = [Index_document (JStr ''doc1'') [(''title'', JStr ''a'')],
                          Index_document (JStr ''doc2'') [(''title'', JStr ''b'')],
                          Delete_document (JStr ''doc1'') False]\<rparr>))
       = [(''main'', ([], [(JStr ''doc2'', [(''title'', JStr ''b'')])]))]
   \<and> map fst (calls (snd (commit (memory_client ''main'' False True)
            \<lparr>server = [(''main'', ([], []))], calls = [],
               pending = [Index_document (JStr ''doc1'') [(''title'', JStr ''a'')],
                          Index_document (JStr ''doc2'') [(''title'', JStr ''b'')],
                          Delete_document (JStr ''doc1'') False]\<rparr>)))
       = [Es_index ''main'' [(''title'', JStr ''a'')] (JStr ''doc1'') None,
          Es_index ''main'' [(''title'', JStr ''b'')] (JStr ''doc2'') None,
          Es_delete ''main'' (JStr ''doc1'')]
   \<and> commit (memory_client ''main'' False True)
            \<lparr>server = [(''main'', ([], []))], calls = [],
               pending = [Delete_document (JStr ''ghost'') False,
                          Index_document (JStr ''doc1'') [(''title'', JStr ''a'')]]\<rparr>
       = (Inl (NotFoundError ''not_found''),
          \<lparr>server = [(''main'', ([], []))],
             calls = [(Es_delete ''main'' (JStr ''ghost''), Inl (NotFoundError ''not_found''))],
             pending = []\<rparr>)
   \<and> abort \<lparr>server = [(''main'', ([], []))], calls = [],
               pending = [Index_document (JStr ''doc1'') [(''title'', JStr ''a'')],
                          Delete_document (JStr ''doc1'') False]\<rparr>
       = start [(''main'', ([], []))]
   \<and> \<not> use_transaction (memory_client ''main'' False False)
   \<and> server (snd (index_document (memory_client ''main'' False False) (JStr ''doc1'')
             [(''title'', JStr ''a'')] (start [(''main'', ([], []))])))
       = [(''main'', ([], [(JStr ''doc1'', [(''title'', JStr ''a'')])]))]
   \<and> pending (snd (index_document (memory_client ''main'' False False) (JStr ''doc1'')
             [(''title'', JStr ''a'')] (start [(''main'', ([], []))]))) = []"
  using transactional_contract
          [where c = "memory_client ''main'' False True" and doc_id = "JStr ''doc1''"
             and doc = "[(''title'', JStr ''a'')]" and safe = False
             and d = "Delete_document (JStr ''doc1'') False"
             and w = "start [(''main'', ([], []))]"]
        transactional_contract
          [where c = "memory_client ''main'' False True" and doc_id = "JStr ''doc1''"
             and doc = "[(''title'', JStr ''a'')]" and safe = False
             and d = "Delete_document (JStr ''doc1'') False"
             and w = "\<lparr>server = [(''main'', ([], []))], calls = [],
               pending = [Index_document (JStr ''doc1'') [(''title'', JStr ''a'')],
                          Index_document (JStr ''doc2'') [(''title'', JStr ''b'')],
                          Delete_document (JStr ''doc1'') False]\<rparr>"]
        transactional_contract
          [where c = "memory_client ''main'' False True" and doc_id = "JStr ''doc1''"
             and doc = "[(''title'', JStr ''a'')]" and safe = False
             and d = "Delete_document (JStr ''doc1'') False"
             and w = "\<lparr>server = [(''main'', ([], []))], calls = [],
               pending = [Delete_document (JStr ''ghost'') False,
                          Index_document (JStr ''doc1'') [(''title'', JStr ''a'')]]\<rparr>"]
        transactional_contract
          [where c = "memory_client ''main'' False False" and doc_id = "JStr ''doc1''"
             and doc = "[(''title'', JStr ''a'')]" and safe = False
             and d = "Index_document (JStr ''doc1'') [(''title'', JStr ''a'')]"
             and w = "start [(''main'', ([], []))]"]
  by (simp add: memory_client_def start_def abort_def commit_def commit_with_def
        index_document_def delete_document_def transactional_def index_document_body_def
        delete_document_body_def dict_contains_def request_def sent_def quiet_def
        AList.delete_eq)

text \<open>
  C1, as the claim words it, fails where a commit fails: on a transactional client,
  \<open>index_document\<close> for \<^verbatim>\<open>doc1\<close>, \<open>delete_document\<close> without \<^verbatim>\<open>safe\<close> for a document that is
  not there, and \<open>index_document\<close> for \<^verbatim>\<open>doc2\<close> are registered; the commit ends with
  NotFoundError, and yet \<^verbatim>\<open>doc1\<close> is stored on the server.
\<close>

theorem transactional_contract_counterexample:
  "use_transaction (memory_client ''main'' False True)
   \<and> fst (commit (memory_client ''main'' False True)
        (snd (index_document (memory_client ''main'' False True) (JStr ''doc2'')
                [(''title'', JStr ''b'')]
           (snd (delete_document (memory_client ''main'' False True) (JStr ''ghost'') False
              (snd (index_document (memory_client ''main'' False True) (JStr ''doc1'')
                      [(''title'', JStr ''a'')] (start [(''main'', ([], []))]))))))))
       = Inl (NotFoundError ''not_found'')
   \<and> server (snd (commit (memory_client ''main'' False True)
        (snd (index_document (memory_client ''main'' False True) (JStr ''doc2'')
                [(''title'', JStr ''b'')]
           (snd (delete_document (memory_client ''main'' False True) (JStr ''ghost'') False
              (snd (index_document (memory_client ''main'' False True) (JStr ''doc1'')
                      [(''title'', JStr ''a'')] (start [(''main'', ([], []))])))))))))
       = [(''main'', ([], [(JStr ''doc1'', [(''title'', JStr ''a'')])]))]
   \<and> map fst (calls (snd (commit (memory_client ''main'' False True)
        (snd (index_document (memory_client ''main'' False True) (JStr ''doc2'')
                [(''title'', JStr ''b'')]
           (snd (delete_document (memory_client ''main'' False True) (JStr ''ghost'') False
              (snd (index_document (memory_client ''main'' False True) (JStr ''doc1'')
                      [(''title'', JStr ''a'')] (start [(''main'', ([], []))]))))))))))
       = [Es_index ''main'' [(''title'', JStr ''a'')] (JStr ''doc1'') None,
          Es_delete ''main'' (JStr ''ghost'')]"
  by (simp add: memory_client_def start_def commit_def commit_with_def
        index_document_def delete_document_def transactional_def index_document_body_def
        delete_document_body_def dict_contains_def request_def AList.delete_eq)

section \<open>Reserved keys of a document\<close>



section \<open>Merging the mappings of all classes\<close>

lemma map_of_dict_update:
  "distinct (map fst e) \<Longrightarrow> map_of (dict_update d e) = map_of d ++ map_of e"
proof (induction e arbitrary: d)
  case Nil
  then show ?case by (simp add: dict_update_def)
next
  case (Cons p e)
  obtain k v where p: "p = (k, v)"
    by (cases p)
  have fresh: "map_of e k = None"
    using Cons.prems p by (simp add: map_of_eq_None_iff)
  have "map_of (dict_update d (p # e)) = map_of (dict_update (AList.update k v d) e)"
    by (simp add: dict_update_def p)
  also have "\<dots> = map_of (AList.update k v d) ++ map_of e"
    using Cons.prems by (intro Cons.IH) simp
  also have "\<dots> = (map_of d)(k \<mapsto> v) ++ map_of e"
    by (simp only: update_conv')
  also have "\<dots> = map_of d ++ map_of (p # e)"
    using fresh by (auto simp: p map_add_def fun_eq_iff split: option.splits)
  finally show ?case .
qed

lemma distinct_dict_update:
  "distinct (map fst d) \<Longrightarrow> distinct (map fst (dict_update d e))"
proof (induction e arbitrary: d)
  case Nil
  then show ?case by (simp add: dict_update_def)
next
  case (Cons p e)
  obtain k v where p: "p = (k, v)"
    by (cases p)
  have "dict_update d (p # e) = dict_update (AList.update k v d) e"
    by (simp add: dict_update_def p)
  then show ?case
    using Cons.IH [of "AList.update k v d"] Cons.prems by (simp add: distinct_update)
qed

lemma map_of_extend_mapping:
  "list_all (\<lambda>e. distinct (map fst e)) exts \<Longrightarrow>
     map_of (extend_mapping exts m) = foldl (++) (map_of m) (map map_of exts)"
  by (induction exts arbitrary: m) (simp_all add: map_of_dict_update)

lemma distinct_extend_mapping:
  "distinct (map fst m) \<Longrightarrow> distinct (map fst (extend_mapping exts m))"
  by (induction exts arbitrary: m) (simp_all add: distinct_dict_update)

lemma map_of_collect_mappings:
  "list_all well_formed registry \<Longrightarrow>
     map_of (collect_mappings registry acc)
       = foldl (++) (map_of acc) (map contribution registry)"
proof (induction registry arbitrary: acc)
  case Nil
  then show ?case by simp
next
  case (Cons cls registry)
  have wf: "distinct (map fst (elastic_mapping cls))"
    "list_all (\<lambda>e. distinct (map fst e)) (mapping_extensions cls)"
    using Cons.prems by (simp_all add: well_formed_def)
  have rest: "list_all well_formed registry"
    using Cons.prems by simp
  show ?case
  proof (cases "provides_mapping cls \<and> elastic_mapping cls \<noteq> []")
    case True
    let ?ext = "extend_mapping (mapping_extensions cls) (elastic_mapping cls)"
    have "map_of (dict_update acc ?ext) = map_of acc ++ contribution cls"
      using True wf
      by (simp add: map_of_dict_update distinct_extend_mapping map_of_extend_mapping
            contribution_def)
    then show ?thesis
      using True Cons.IH [OF rest, of "dict_update acc ?ext"] by simp
  next
    case False
    then have "contribution cls = Map.empty"
      by (auto simp: contribution_def)
    then show ?thesis
      using False Cons.IH [OF rest, of acc] by auto
  qed
qed

lemma foldl_add_untouched:
  "list_all (\<lambda>m. m k = None) ms \<Longrightarrow> foldl (++) a ms k = a k"
  by (induction ms arbitrary: a) (simp_all add: map_add_def)

lemma foldl_add_last_setter:
  "n k = Some v \<Longrightarrow> list_all (\<lambda>m. m k = None) ms \<Longrightarrow>
     foldl (++) a (ns @ n # ms) k = Some v"
  by (simp add: foldl_add_untouched)

lemma merged_last_setter:
  assumes "registry = before @ B # after"
      and "provides_mapping B" and "elastic_mapping B \<noteq> []"
      and "mapping_extensions B = es1 @ e # es2"
      and "map_of e k = Some v"
      and "list_all (\<lambda>x. map_of x k = None) es2"
      and "list_all (\<lambda>cls. contribution cls k = None) after"
  shows "merged registry k = Some v"
proof -
  have "list_all (\<lambda>m. m k = None) (map map_of es2)"
    using assms(6) by (simp add: list_all_iff)
  then have "contribution B k = Some v"
    using assms(2-5) foldl_add_last_setter [of "map_of e" k v "map map_of es2"]
    by (simp add: contribution_def)
  moreover have "list_all (\<lambda>m. m k = None) (map contribution after)"
    using assms(7) by (simp add: list_all_iff)
  ultimately show ?thesis
    using foldl_add_last_setter [of "contribution B" k v "map contribution after"]
    by (simp add: merged_def assms(1))
qed

lemma ensure_all_mappings_pushed:
  "filter is_put_mapping (map fst (issued w (snd (ensure_all_mappings c registry recreate w))))
     = (if (case fst (get_mappings c w) of Inl e \<Rightarrow> False | Inr m \<Rightarrow> \<not> truthy m \<or> recreate)
        then [Indices_put_mapping (index c) (JDict (collect_mappings registry []))] else [])"
proof (cases "get_mappings c w")
  case (Pair r w1)
  have c1: "calls w1 = calls w @ [(Indices_get_mapping (index c),
                   fst (es c (Indices_get_mapping (index c)) (server w)))]"
    using get_mappings_calls [of c w] Pair by simp
  show ?thesis
  proof (cases r)
    case (Inl e)
    then show ?thesis
      using Pair c1 by (simp add: ensure_all_mappings_def issued_def)
  next
    case (Inr m)
    show ?thesis
    proof (rule request_cases
             [of c "Indices_put_mapping (index c) (JDict (collect_mappings registry []))" w1])
      fix r2 s2
      assume "request c (Indices_put_mapping (index c) (JDict (collect_mappings registry []))) w1
                = (r2, w1\<lparr>server := s2, calls := calls w1 @
                     [(Indices_put_mapping (index c) (JDict (collect_mappings registry [])), r2)]\<rparr>)"
      then show ?thesis
        using Pair Inr c1
        by (simp add: ensure_all_mappings_def issued_def split: sum.splits)
    qed
  qed
qed

text \<open>
  C6, as the code has it. When \<open>ensure_all_mappings\<close> pushes (the index has no mapping, or
  \<open>recreate\<close> is set), it pushes one document: the merge, in the order of the registry, of
  the mapping of every indexable class whose own mapping is not empty, each overridden by
  the extensions of that class in their order, later contributions overriding earlier
  ones. So when an extension of a class B with a non-empty mapping of its own sets a field,
  and no later extension of B and no class after B sets it again, the pushed document has
  the value of that extension for the field, whatever a class before B had set. The
  dictionaries are taken to hold each key once.
\<close>

theorem ensure_all_mappings_merge:
  assumes "list_all well_formed registry"
  shows "filter is_put_mapping
           (map fst (issued w (snd (ensure_all_mappings c registry recreate w))))
         = (if (case fst (get_mappings c w) of
                  Inl e \<Rightarrow> False | Inr m \<Rightarrow> \<not> truthy m \<or> recreate)
            then [Indices_put_mapping (index c) (JDict (collect_mappings registry []))]
            else [])
       \<and> map_of (collect_mappings registry []) = merged registry
       \<and> (\<forall>before B after es1 e es2 k v.
            registry = before @ B # after
            \<and> provides_mapping B \<and> elastic_mapping B \<noteq> []
            \<and> mapping_extensions B = es1 @ e # es2
            \<and> map_of e k = Some v
            \<and> list_all (\<lambda>x. map_of x k = None) es2
            \<and> list_all (\<lambda>cls. contribution cls k = None) after
            \<longrightarrow> map_of (collect_mappings registry []) k = Some v)"
proof -
  have m: "map_of (collect_mappings registry []) = merged registry"
    using map_of_collect_mappings [OF assms, of "[]"] by (simp add: merged_def)
  show ?thesis
    using m ensure_all_mappings_pushed [of w c registry recreate] merged_last_setter
    by (simp only: simp_thms) blast
qed

theorem ensure_all_mappings_merge_witness:
  "list_all well_formed
     [\<lparr>provides_mapping = True, elastic_mapping = [(''status'', JStr ''keyword'')],
         mapping_extensions = []\<rparr>,
      \<lparr>provides_mapping = True, elastic_mapping = [(''title'', JStr ''text'')],
         mapping_extensions = [[(''status'', JStr ''text'')]]\<rparr>]
   \<and> map_of [(''status'', JStr ''text'')] ''status'' = Some (JStr ''text'')
   \<and> map_of (collect_mappings
        [\<lparr>provides_mapping = True, elastic_mapping = [(''status'', JStr ''keyword'')],
            mapping_extensions = []\<rparr>,
         \<lparr>provides_mapping = True, elastic_mapping = [(''title'', JStr ''text'')],
            mapping_extensions = [[(''status'', JStr ''text'')]]\<rparr>] []) ''status''
       = Some (JStr ''text'')
   \<and> merged
        [\<lparr>provides_mapping = True, elastic_mapping = [(''status'', JStr ''keyword'')],
            mapping_extensions = []\<rparr>,
         \<lparr>provides_mapping = True, elastic_mapping = [(''title'', JStr ''text'')],
            mapping_extensions = [[(''status'', JStr ''text'')]]\<rparr>] ''title''
       = Some (JStr ''text'')"
proof -
  have wf: "list_all well_formed
     [\<lparr>provides_mapping = True, elastic_mapping = [(''status'', JStr ''keyword'')],
         mapping_extensions = []\<rparr>,
      \<lparr>provides_mapping = True, elastic_mapping = [(''title'', JStr ''text'')],
         mapping_extensions = [[(''status'', JStr ''text'')]]\<rparr>]"
    by (simp add: well_formed_def)
  show ?thesis
    using wf ensure_all_mappings_merge [OF wf, of "start []" "memory_client ''main'' False True" False]
    by (simp add: dict_update_def merged_def contribution_def)
qed

text \<open>
  C6, as the claim words it, fails for an indexable class whose own mapping is empty: its
  extensions are skipped with it. Class A sets \<^verbatim>\<open>status\<close>; class B, indexable, has an empty
  mapping and an extension that sets \<^verbatim>\<open>status\<close>; the document pushed keeps the value of A.
\<close>

theorem ensure_all_mappings_merge_counterexample:
  "provides_mapping
      \<lparr>provides_mapping = True, elastic_mapping = [],
         mapping_extensions = [[(''status'', JStr ''text'')]]\<rparr>
   \<and> map fst (calls (snd (ensure_all_mappings (memory_client ''main'' False True)
        [\<lparr>provides_mapping = True, elastic_mapping = [(''status'', JStr ''keyword'')],
            mapping_extensions = []\<rparr>,
         \<lparr>provides_mapping = True, elastic_mapping = [],
            mapping_extensions = [[(''status'', JStr ''text'')]]\<rparr>]
        False (start [(''main'', ([], []))]))))
       = [Indices_get_mapping ''main'',
          Indices_put_mapping ''main'' (JDict [(''status'', JStr ''keyword'')])]
   \<and> map_of (collect_mappings
        [\<lparr>provides_mapping = True, elastic_mapping = [(''status'', JStr ''keyword'')],
            mapping_extensions = []\<rparr>,
         \<lparr>provides_mapping = True, elastic_mapping = [],
            mapping_extensions = [[(''status'', JStr ''text'')]]\<rparr>] []) ''status''
       \<noteq> Some (JStr ''text'')"
  by (simp add: ensure_all_mappings_def get_mappings_def request_def memory_client_def
        start_def dict_update_def)

section \<open>Reading a document back\<close>





end
